theory Spec2Isabelle
  imports Complex_Main "HOL-Library.Char_ord" "HOL-Library.List_Lexorder"
begin

section \<open>Python strings and sequences\<close>

text \<open>
  The scripts under \<open>sources/bin\<close> are Python.  A Python \<open>str\<close> is modelled as a
  \<^typ>\<open>string\<close>; the exceptions the modelled functions can raise are values of
  \<open>py_error\<close>, and a function that may raise returns \<open>py_error + 'a\<close>.
\<close>

datatype py_error =
    ValueError
  | IndexError
  | TypeError
  | KeyError
  | AttributeError
  | FileNotFoundError
  | ConnectionError
  | SystemExit
  | PermissionError
  | UnicodeDecodeError
  | OtherException

text \<open>Python values as the scripts exchange them with the JSON library and the web: a
  \<open>dict\<close> is the list of its items in insertion order (keys are strings and occur once),
  a \<open>set\<close> the list of its elements in iteration order.  Floats are not modelled.\<close>

datatype py =
    PNone
  | PBool bool
  | PInt int
  | PStr string
  | PList "py list"
  | PSet "py list"
  | PDict "(string \<times> py) list"

text \<open>\<open>s.split(sep)\<close> for a one-character separator: \<open>n\<close> separators give \<open>n + 1\<close>
  segments, empty ones included.\<close>

fun split_on :: "char \<Rightarrow> string \<Rightarrow> string list" where
  "split_on sep [] = [[]]"
| "split_on sep (c # cs) =
     (if c = sep then [] # split_on sep cs
      else (case split_on sep cs of
              [] \<Rightarrow> [[c]]
            | w # ws \<Rightarrow> (c # w) # ws))"

text \<open>\<open>sep.join(xs)\<close>.\<close>

fun join :: "string \<Rightarrow> string list \<Rightarrow> string" where
  "join sep [] = []"
| "join sep [x] = x"
| "join sep (x # y # ys) = x @ sep @ join sep (y # ys)"

text \<open>\<open>s.startswith(p)\<close>, \<open>s.endswith(p)\<close> and \<open>p in s\<close>.\<close>

fun startswith :: "string \<Rightarrow> string \<Rightarrow> bool" where
  "startswith s [] = True"
| "startswith [] (p # ps) = False"
| "startswith (c # cs) (p # ps) = (c = p \<and> startswith cs ps)"

definition endswith :: "string \<Rightarrow> string \<Rightarrow> bool" where
  "endswith s p = startswith (rev s) (rev p)"

fun contains :: "string \<Rightarrow> string \<Rightarrow> bool" where
  "contains [] p = (p = [])"
| "contains (c # cs) p = (startswith (c # cs) p \<or> contains cs p)"

text \<open>\<open>xs[i]\<close> with Python's negative indices; out of range raises \<open>IndexError\<close>.\<close>

definition py_index :: "'a list \<Rightarrow> int \<Rightarrow> py_error + 'a" where
  "py_index xs i =
     (let n = int (length xs);
          j = (if i < 0 then i + n else i)
      in if 0 \<le> j \<and> j < n then Inr (xs ! nat j) else Inl IndexError)"

text \<open>\<open>s[:-k]\<close> for \<open>k > 0\<close>: all but the last \<open>k\<close> characters.\<close>

definition drop_last :: "nat \<Rightarrow> string \<Rightarrow> string" where
  "drop_last k s = take (length s - k) s"

section \<open>\<open>shared.py\<close>\<close>

subsection \<open>\<open>shorten_tool_id\<close>\<close>

definition shorten_tool_id :: "string \<Rightarrow> py_error + string" where
  "shorten_tool_id tool =
     (if contains tool ''toolshed'' then py_index (split_on CHR ''/'' tool) (- 2)
      else Inr tool)"

subsection \<open>\<open>get_github_repo\<close>\<close>

text \<open>The PyGithub client \<open>g\<close> is outside the repository: it is a parameter, a pair of
  lookups that may fail.\<close>

record ('u, 'r) github =
  get_user :: "string \<Rightarrow> py_error + 'u"
  get_repo :: "'u \<Rightarrow> string \<Rightarrow> py_error + 'r"

definition strip_trailing_slash :: "string \<Rightarrow> string" where
  "strip_trailing_slash url = (if endswith url ''/'' then drop_last 1 url else url)"

definition strip_dot_git :: "string \<Rightarrow> string" where
  "strip_dot_git url = (if endswith url ''.git'' then drop_last 4 url else url)"

definition get_github_repo :: "string \<Rightarrow> ('u, 'r) github \<Rightarrow> py_error + 'r" where
  "get_github_repo url g =
     (if \<not> startswith url ''https://github.com/'' then Inl ValueError
      else
        let url1 = strip_trailing_slash url;
            url2 = strip_dot_git url1;
            u_split = split_on CHR ''/'' url2
        in (case py_index u_split (- 2) of
              Inl e \<Rightarrow> Inl e
            | Inr owner \<Rightarrow>
                (case py_index u_split (- 1) of
                   Inl e \<Rightarrow> Inl e
                 | Inr name \<Rightarrow>
                     (case get_user g owner of
                        Inl e \<Rightarrow> Inl e
                      | Inr u \<Rightarrow> get_repo g u name))))"

subsection \<open>\<open>format_list_column\<close>\<close>

text \<open>A \<open>pd.Series\<close> is modelled as the list of its cells, \<open>Series.apply\<close> as \<open>map\<close>.
  Python's built-in \<open>str\<close> is the parameter \<open>py_str\<close>.\<close>

definition format_list_column :: "('a \<Rightarrow> string) \<Rightarrow> 'a list list \<Rightarrow> string list" where
  "format_list_column py_str col = map (\<lambda>x. join '', '' (map py_str x)) col"

subsection \<open>\<open>read_file\<close>\<close>

text \<open>The file system: a path names a regular file that can be read, with its decoded
  text; a regular file that cannot be read, with the exception that \<open>open\<close> or the
  decoding of \<open>readlines\<close> raises (no permission, bytes that are not text); a directory;
  or nothing.  Characters are the code points below 256.\<close>

datatype fs_entry = RegularFile string | UnreadableFile py_error | Directory

type_synonym filesystem = "string \<rightharpoonup> fs_entry"








subsection \<open>\<open>get_request_json\<close>\<close>

text \<open>What one call of \<open>requests.get(...)\<close>, \<open>raise_for_status()\<close> and \<open>r.json()\<close>
  does, by the \<open>except\<close> clause that catches it: the web is outside the program.\<close>

datatype http_outcome =
    RaisesConnectionError
  | RaisesRequestException
  | RaisesValueError
  | RaisesOther
  | Returns py

text \<open>The \<open>while\<close> loop.  \<open>web n\<close> is the outcome of the \<open>n\<close>-th request of the call;
  the result comes with the number of requests made and the \<open>time.sleep\<close> delays, in
  order.\<close>

function get_request_json_loop ::
  "(nat \<Rightarrow> http_outcome) \<Rightarrow> int \<Rightarrow> real \<Rightarrow> int \<Rightarrow> nat \<Rightarrow> real list
     \<Rightarrow> (py_error + py) \<times> nat \<times> real list" where
  "get_request_json_loop web retries delay attempt n slept =
     (if attempt < retries then
        (case web n of
           Returns j \<Rightarrow> (Inr j, Suc n, slept)
         | RaisesConnectionError \<Rightarrow>
             (if attempt + 1 = retries then (Inl ConnectionError, Suc n, slept)
              else get_request_json_loop web retries delay (attempt + 1) (Suc n)
                     (slept @ [delay]))
         | RaisesRequestException \<Rightarrow> (Inl SystemExit, Suc n, slept)
         | RaisesValueError \<Rightarrow> (Inl ValueError, Suc n, slept)
         | RaisesOther \<Rightarrow> (Inl OtherException, Suc n, slept))
      else (Inr (PDict []), n, slept))"
  by pat_completeness auto
termination
  by (relation "measure (\<lambda>(web, retries, delay, attempt, n, slept). nat (retries - attempt))")
    auto

definition get_request_json_with ::
  "(nat \<Rightarrow> http_outcome) \<Rightarrow> int \<Rightarrow> real \<Rightarrow> (py_error + py) \<times> nat \<times> real list" where
  "get_request_json_with web retries delay = get_request_json_loop web retries delay 0 0 []"

text \<open>The call with the defaults \<open>retries = 3\<close>, \<open>delay = 2.0\<close>.\<close>

definition get_request_json :: "(nat \<Rightarrow> http_outcome) \<Rightarrow> (py_error + py) \<times> nat \<times> real list" where
  "get_request_json web = get_request_json_with web 3 2"

subsection \<open>\<open>reduce_ontology_terms\<close>\<close>

text \<open>The owlready2 ontology is a parameter: the label search, the \<open>subclasses()\<close> of a
  class (which may raise) and the labels of a class.\<close>

record 'c ontology =
  search_one :: "string \<Rightarrow> 'c option"
  subclasses :: "'c \<Rightarrow> py_error + 'c list"
  label :: "'c \<Rightarrow> string list"

text \<open>\<open>for cla2 in check_classes: if subcla == cla2: include_class = False\<close>\<close>

fun check_subclass :: "'c \<Rightarrow> 'c list \<Rightarrow> bool \<Rightarrow> bool" where
  "check_subclass subcla [] include_class = include_class"
| "check_subclass subcla (cla2 # rest) include_class =
     check_subclass subcla rest (if subcla = cla2 then False else include_class)"

text \<open>\<open>for subcla in subclasses: ...\<close>\<close>

fun check_subclasses :: "'c list \<Rightarrow> 'c list \<Rightarrow> bool \<Rightarrow> bool" where
  "check_subclasses [] check_classes include_class = include_class"
| "check_subclasses (subcla # rest) check_classes include_class =
     check_subclasses rest check_classes (check_subclass subcla check_classes include_class)"

text \<open>\<open>for cla in check_classes: try: ... except Exception: print(...)\<close>\<close>

fun reduce_classes :: "'c ontology \<Rightarrow> 'c list \<Rightarrow> 'c list \<Rightarrow> 'c list \<Rightarrow> 'c list" where
  "reduce_classes ontology check_classes [] new_classes = new_classes"
| "reduce_classes ontology check_classes (cla # rest) new_classes =
     (case subclasses ontology cla of
        Inl e \<Rightarrow> reduce_classes ontology check_classes rest new_classes
      | Inr subs \<Rightarrow>
          (if check_subclasses subs check_classes True
           then reduce_classes ontology check_classes rest (new_classes @ [cla])
           else reduce_classes ontology check_classes rest new_classes))"

text \<open>\<open>[cla.label[0] for cla in new_classes if cla is not None]\<close>\<close>

fun first_labels :: "'c ontology \<Rightarrow> 'c list \<Rightarrow> py_error + string list" where
  "first_labels ontology [] = Inr []"
| "first_labels ontology (cla # rest) =
     (case py_index (label ontology cla) 0 of
        Inl e \<Rightarrow> Inl e
      | Inr l \<Rightarrow>
          (case first_labels ontology rest of
             Inl e \<Rightarrow> Inl e
           | Inr ls \<Rightarrow> Inr (l # ls)))"

definition reduce_ontology_terms :: "string list \<Rightarrow> 'c ontology \<Rightarrow> py_error + string list" where
  "reduce_ontology_terms terms ontology =
     (if terms = [] then Inr terms
      else
        let classes = map (search_one ontology) terms;
            check_classes = [cla. Some cla \<leftarrow> classes];
            new_classes = reduce_classes ontology check_classes check_classes []
        in first_labels ontology new_classes)"

text \<open>The rule as the specification words it, for comparison: a term is dropped exactly
  when another term of the list is a subclass of it.\<close>

definition spec_is_subclass_term :: "'c ontology \<Rightarrow> string \<Rightarrow> string \<Rightarrow> bool" where
  "spec_is_subclass_term ontology t2 t =
     (case (search_one ontology t2, search_one ontology t) of
        (Some c2, Some c) \<Rightarrow>
          (case subclasses ontology c of Inr subs \<Rightarrow> c2 \<in> set subs | Inl e \<Rightarrow> False)
      | _ \<Rightarrow> False)"

definition spec_reduce_ontology_terms :: "string list \<Rightarrow> 'c ontology \<Rightarrow> string list" where
  "spec_reduce_ontology_terms terms ontology =
     filter (\<lambda>t. \<not> list_ex (\<lambda>t2. t2 \<noteq> t \<and> spec_is_subclass_term ontology t2 t) terms) terms"

section \<open>\<open>extract_galaxy_tools.py\<close>\<close>

subsection \<open>\<open>get_all_installed_tool_ids_on_server\<close>\<close>

text \<open>\<open>s.rstrip("/")\<close>: every trailing \<open>/\<close> goes.\<close>

definition rstrip_slash :: "string \<Rightarrow> string" where
  "rstrip_slash s = rev (dropWhile (\<lambda>c. c = CHR ''/'') (rev s))"

text \<open>Iterating over a value and subscripting one with a string key, as the list
  comprehension \<open>[tool_dict["id"] for tool_dict in tool_dict_list]\<close> does.\<close>

definition py_iter :: "py \<Rightarrow> py_error + py list" where
  "py_iter v =
     (case v of
        PList xs \<Rightarrow> Inr xs
      | PSet xs \<Rightarrow> Inr xs
      | PDict kvs \<Rightarrow> Inr (map (\<lambda>kv. PStr (fst kv)) kvs)
      | PStr s \<Rightarrow> Inr (map (\<lambda>c. PStr [c]) s)
      | _ \<Rightarrow> Inl TypeError)"

definition py_getitem :: "py \<Rightarrow> string \<Rightarrow> py_error + py" where
  "py_getitem v k =
     (case v of
        PDict kvs \<Rightarrow> (case map_of kvs k of Some x \<Rightarrow> Inr x | None \<Rightarrow> Inl KeyError)
      | _ \<Rightarrow> Inl TypeError)"

fun tool_ids_of :: "py list \<Rightarrow> py_error + py list" where
  "tool_ids_of [] = Inr []"
| "tool_ids_of (tool_dict # rest) =
     (case py_getitem tool_dict ''id'' of
        Inl e \<Rightarrow> Inl e
      | Inr i \<Rightarrow> (case tool_ids_of rest of Inl e \<Rightarrow> Inl e | Inr is \<Rightarrow> Inr (i # is)))"

text \<open>\<open>web url\<close> is the outcome of the GET on \<open>url\<close>.  Every exception of the \<open>try\<close>
  block ends in \<open>return []\<close>.\<close>

definition get_all_installed_tool_ids_on_server :: "(string \<Rightarrow> http_outcome) \<Rightarrow> string \<Rightarrow> py list" where
  "get_all_installed_tool_ids_on_server web galaxy_url =
     (let galaxy_url1 = rstrip_slash galaxy_url;
          base_url = galaxy_url1 @ ''/api''
      in (case web (base_url @ ''/tools'') of
            Returns tool_dict_list \<Rightarrow>
              (case py_iter tool_dict_list of
                 Inl e \<Rightarrow> []
               | Inr ds \<Rightarrow> (case tool_ids_of ds of Inl e \<Rightarrow> [] | Inr tools \<Rightarrow> tools))
          | _ \<Rightarrow> []))"

section \<open>\<open>shared.py\<close>: JSON export and import\<close>

text \<open>A JSON document, as \<open>json.dump\<close> writes it and \<open>json.load\<close> reads it; the members
  of an object are in the order of the text.  The text itself (indentation, escapes) is
  not modelled: a file written by \<open>json.dump\<close> is kept as the document it encodes.\<close>

datatype json =
    JNull
  | JBool bool
  | JInt int
  | JStr string
  | JArray "json list"
  | JObject "(string \<times> json) list"

type_synonym json_files = "string \<rightharpoonup> json"

text \<open>What \<open>json.dump(data, f, indent=4, sort_keys=sort_keys, default=list)\<close> encodes.
  A set is not serialisable: the encoder hands it to \<open>default\<close>, that is \<open>list\<close>, and
  encodes the list.  With \<open>sort_keys\<close> the items of a dict are sorted by key.\<close>

function json_encode :: "bool \<Rightarrow> py \<Rightarrow> json" where
  "json_encode sort_keys PNone = JNull"
| "json_encode sort_keys (PBool b) = JBool b"
| "json_encode sort_keys (PInt i) = JInt i"
| "json_encode sort_keys (PStr s) = JStr s"
| "json_encode sort_keys (PList xs) = JArray (map (json_encode sort_keys) xs)"
| "json_encode sort_keys (PSet xs) = JArray (map (json_encode sort_keys) xs)"
| "json_encode sort_keys (PDict items) =
     JObject (map (\<lambda>kv. (fst kv, json_encode sort_keys (snd kv)))
                (if sort_keys then sort_key fst items else items))"
  by pat_completeness auto
termination
proof (relation "measure (\<lambda>(sort_keys, v). size v)", goal_cases)
  case 1
  show ?case by simp
next
  case (2 sort_keys xs x)
  then show ?case by (induction xs) auto
next
  case (3 sort_keys xs x)
  then show ?case by (induction xs) auto
next
  case (4 sort_keys items kv)
  then have "kv \<in> set items" by (auto split: if_splits)
  then show ?case by (induction items) auto
qed

definition export_to_json :: "json_files \<Rightarrow> py \<Rightarrow> string \<Rightarrow> bool \<Rightarrow> json_files" where
  "export_to_json files data output_fp sort_keys =
     files(output_fp \<mapsto> json_encode sort_keys data)"

text \<open>\<open>d[k] = v\<close> on a dict and the dict that \<open>json.load\<close> builds from the members of an
  object: a repeated key keeps its first position and its last value.\<close>

fun dict_setitem :: "(string \<times> 'v) list \<Rightarrow> string \<Rightarrow> 'v \<Rightarrow> (string \<times> 'v) list" where
  "dict_setitem [] k v = [(k, v)]"
| "dict_setitem (kv # rest) k v =
     (if fst kv = k then (k, v) # rest else kv # dict_setitem rest k v)"

definition dict_of_items :: "(string \<times> 'v) list \<Rightarrow> (string \<times> 'v) list" where
  "dict_of_items items = foldl (\<lambda>d kv. dict_setitem d (fst kv) (snd kv)) [] items"

fun json_decode :: "json \<Rightarrow> py" where
  "json_decode JNull = PNone"
| "json_decode (JBool b) = PBool b"
| "json_decode (JInt i) = PInt i"
| "json_decode (JStr s) = PStr s"
| "json_decode (JArray xs) = PList (map json_decode xs)"
| "json_decode (JObject members) =
     PDict (dict_of_items (map (\<lambda>kv. (fst kv, json_decode (snd kv))) members))"

definition load_json :: "json_files \<Rightarrow> string \<Rightarrow> py_error + py" where
  "load_json files input_df =
     (case files input_df of
        None \<Rightarrow> Inl FileNotFoundError
      | Some content \<Rightarrow> Inr (json_decode content))"

text \<open>Equality of two values up to the order of the keys of their dicts: both have the
  same form once the items of every dict are sorted by key.\<close>

function sorted_by_key :: "py \<Rightarrow> py" where
  "sorted_by_key PNone = PNone"
| "sorted_by_key (PBool b) = PBool b"
| "sorted_by_key (PInt i) = PInt i"
| "sorted_by_key (PStr s) = PStr s"
| "sorted_by_key (PList xs) = PList (map sorted_by_key xs)"
| "sorted_by_key (PSet xs) = PSet (map sorted_by_key xs)"
| "sorted_by_key (PDict items) =
     PDict (map (\<lambda>kv. (fst kv, sorted_by_key (snd kv))) (sort_key fst items))"
  by pat_completeness auto
termination
proof (relation "measure size", goal_cases)
  case 1
  show ?case by simp
next
  case (2 xs x)
  then show ?case by (induction xs) auto
next
  case (3 xs x)
  then show ?case by (induction xs) auto
next
  case (4 items kv)
  then have "kv \<in> set items" by simp
  then show ?case by (induction items) auto
qed

definition equal_ignoring_key_order :: "py \<Rightarrow> py \<Rightarrow> bool" where
  "equal_ignoring_key_order a b = (sorted_by_key a = sorted_by_key b)"

text \<open>Well-formed values: the keys of every dict are distinct.  JSON-native values: those
  without a set.\<close>

fun distinct_keys :: "py \<Rightarrow> bool" where
  "distinct_keys (PList xs) = list_all distinct_keys xs"
| "distinct_keys (PSet xs) = list_all distinct_keys xs"
| "distinct_keys (PDict items) =
     (distinct (map fst items) \<and> list_all (\<lambda>kv. distinct_keys (snd kv)) items)"
| "distinct_keys v = True"

fun json_native :: "py \<Rightarrow> bool" where
  "json_native (PList xs) = list_all json_native xs"
| "json_native (PSet xs) = False"
| "json_native (PDict items) = list_all (\<lambda>kv. json_native (snd kv)) items"
| "json_native v = True"


section \<open>\<open>extract_galaxy_tools.py\<close>: the command line and the command dispatch\<close>

text \<open>The \<open>Namespace\<close> that \<open>parser.parse_args()\<close> returns: \<open>command\<close> and one attribute for
  each \<open>add_argument\<close> of the chosen sub-parser, \<open>None\<close> for an option that was not given.
  Reading an attribute the namespace does not have raises \<open>AttributeError\<close>.\<close>

datatype arg = ArgNone | ArgStr string | ArgBool bool

type_synonym namespace = "string \<rightharpoonup> arg"

definition getattr :: "namespace \<Rightarrow> string \<Rightarrow> py_error + arg" where
  "getattr args name = (case args name of None \<Rightarrow> Inl AttributeError | Some v \<Rightarrow> Inr v)"

definition optional_arg :: "string option \<Rightarrow> arg" where
  "optional_arg v = (case v of None \<Rightarrow> ArgNone | Some s \<Rightarrow> ArgStr s)"

definition extract_args ::
  "string \<Rightarrow> string \<Rightarrow> string \<Rightarrow> string option \<Rightarrow> bool \<Rightarrow> bool \<Rightarrow> namespace" where
  "extract_args api all all_tsv planemo_repository_list avoid_extra_repositories test =
     [''command'' \<mapsto> ArgStr ''extract'',
      ''api'' \<mapsto> ArgStr api,
      ''all'' \<mapsto> ArgStr all,
      ''all_tsv'' \<mapsto> ArgStr all_tsv,
      ''planemo_repository_list'' \<mapsto> optional_arg planemo_repository_list,
      ''avoid_extra_repositories'' \<mapsto> ArgBool avoid_extra_repositories,
      ''test'' \<mapsto> ArgBool test]"

definition filter_args ::
  "string \<Rightarrow> string option \<Rightarrow> string \<Rightarrow> string \<Rightarrow> string option \<Rightarrow> namespace" where
  "filter_args all categories filtered tsv_filtered status =
     [''command'' \<mapsto> ArgStr ''filter'',
      ''all'' \<mapsto> ArgStr all,
      ''categories'' \<mapsto> optional_arg categories,
      ''filtered'' \<mapsto> ArgStr filtered,
      ''tsv_filtered'' \<mapsto> ArgStr tsv_filtered,
      ''status'' \<mapsto> optional_arg status]"

definition curate_args ::
  "string \<Rightarrow> string \<Rightarrow> string \<Rightarrow> string \<Rightarrow> string option \<Rightarrow> namespace" where
  "curate_args filtered curated wo_biotools w_biotools status =
     [''command'' \<mapsto> ArgStr ''curate'',
      ''filtered'' \<mapsto> ArgStr filtered,
      ''curated'' \<mapsto> ArgStr curated,
      ''wo_biotools'' \<mapsto> ArgStr wo_biotools,
      ''w_biotools'' \<mapsto> ArgStr w_biotools,
      ''status'' \<mapsto> optional_arg status]"

text \<open>The status table \<open>pd.read_csv(...).to_dict("index")\<close>: suite id to its flags.\<close>

record status_entry =
  keep :: bool
  deprecated :: bool

type_synonym status_table = "string \<rightharpoonup> status_entry"

text \<open>The files of a run: text files and directories, and the files written by
  \<open>json.dump\<close>.\<close>

record world =
  text_files :: filesystem
  json_files_of :: json_files

text \<open>The class \<open>Tools\<close> of \<open>tools.py\<close> and the pandas reader are not part of the
  sources at hand: the dispatch takes their methods as parameters, each of which may
  raise.  \<open>has_tools\<close> is the truth value of \<open>tools.tools\<close>.\<close>

record 't tools_class =
  init_by_importing :: "py \<Rightarrow> py_error + 't"
  has_tools :: "'t \<Rightarrow> bool"
  filter_tools_method :: "'t \<Rightarrow> string list \<Rightarrow> status_table \<Rightarrow> py_error + 't"
  curate_tools_method :: "'t \<Rightarrow> status_table \<Rightarrow> py_error + 't \<times> 't \<times> 't"
  export_tools_to_dict :: "'t \<Rightarrow> py_error + py"
  export_tools_to_tsv ::
    "'t \<Rightarrow> string \<Rightarrow> bool \<Rightarrow> string list option \<Rightarrow> filesystem \<Rightarrow> py_error + filesystem"
  read_csv :: "filesystem \<Rightarrow> arg \<Rightarrow> py_error + status_table"


text \<open>Sequencing of steps that may raise: the first exception ends the command.\<close>

definition and_then :: "py_error + 'a \<Rightarrow> ('a \<Rightarrow> py_error + 'b) \<Rightarrow> py_error + 'b" where
  "and_then r f = (case r of Inl e \<Rightarrow> Inl e | Inr x \<Rightarrow> f x)"

text \<open>\<open>Path(p)\<close>: a string is a path, anything else raises \<open>TypeError\<close>.\<close>

definition path_of :: "arg \<Rightarrow> py_error + string" where
  "path_of a = (case a of ArgStr p \<Rightarrow> Inr p | _ \<Rightarrow> Inl TypeError)"





text \<open>\<open>try: status = pd.read_csv(args.status, ...) except Exception: status = {}\<close>\<close>

definition curate_status :: "'t tools_class \<Rightarrow> world \<Rightarrow> namespace \<Rightarrow> status_table" where
  "curate_status T w args =
     (case and_then (getattr args ''status'') (read_csv T (text_files w)) of
        Inl e \<Rightarrow> Map.empty
      | Inr status \<Rightarrow> status)"

text \<open>\<open>elif args.command == "curate":\<close>\<close>

definition curate_command :: "'t tools_class \<Rightarrow> world \<Rightarrow> namespace \<Rightarrow> py_error + world" where
  "curate_command T w args =
     and_then (getattr args ''all'') (\<lambda>all.
     and_then (path_of all) (\<lambda>all_fp.
     and_then (load_json (json_files_of w) all_fp) (\<lambda>data.
     and_then (init_by_importing T data) (\<lambda>tools.
     let status = curate_status T w args in
     and_then (curate_tools_method T tools status) (\<lambda>(tools1, tools_wo_biotools, tools_with_biotools).
       if has_tools T tools1 then
         and_then (getattr args ''curated'') (\<lambda>curated.
         and_then (path_of curated) (\<lambda>curated_fp.
         and_then (export_tools_to_tsv T tools1 curated_fp True None (text_files w)) (\<lambda>fs1.
         and_then (getattr args ''wo_biotools'') (\<lambda>wo.
         and_then (path_of wo) (\<lambda>wo_fp.
         and_then (export_tools_to_tsv T tools_wo_biotools wo_fp True
                     (Some [''Suite ID'', ''Homepage'', ''Suite source'']) fs1) (\<lambda>fs2.
         and_then (getattr args ''w_biotools'') (\<lambda>wb.
         and_then (path_of wb) (\<lambda>wb_fp.
         and_then (export_tools_to_tsv T tools_with_biotools wb_fp True
                     (Some [''Suite ID'', ''bio.tool name'', ''EDAM operations'', ''EDAM topics''])
                     fs2) (\<lambda>fs3.
           Inr (w\<lparr>text_files := fs3\<rparr>))))))))))
       else Inr w)))))"

subsection \<open>The filter of \<open>Tools.filter_tools\<close>\<close>

text \<open>A tool suite, with the attributes the filter reads.\<close>

record suite =
  suite_id :: string
  toolshed_categories :: "string list"

definition category_in_allow_list :: "string list \<Rightarrow> suite \<Rightarrow> bool" where
  "category_in_allow_list categories s =
     list_ex (\<lambda>c. c \<in> set categories) (toolshed_categories s)"

definition status_keeps :: "status_table \<Rightarrow> suite \<Rightarrow> bool" where
  "status_keeps status s =
     (case status (suite_id s) of None \<Rightarrow> True | Some entry \<Rightarrow> keep entry)"

text \<open>Modelled from the spec: \<open>Tools.filter_tools\<close> of \<open>tools.py\<close>, which is not among the
  sources.  The specification (section 4.4): keep a suite if its ToolShed category
  intersects an allow-list and no status override exists or the override's keep flag is
  true.\<close>

fun filter_tools :: "string list \<Rightarrow> status_table \<Rightarrow> suite list \<Rightarrow> suite list" where
  "filter_tools categories status [] = []"
| "filter_tools categories status (s # rest) =
     (if category_in_allow_list categories s \<and> status_keeps status s
      then s # filter_tools categories status rest
      else filter_tools categories status rest)"


section \<open>Auxiliary definitions and example inputs\<close>

text \<open>The test the loop of \<open>reduce_ontology_terms\<close> applies to one class, as a predicate.\<close>

definition keeps_class :: "'c ontology \<Rightarrow> 'c list \<Rightarrow> 'c \<Rightarrow> bool" where
  "keeps_class ontology check_classes cla =
     (case subclasses ontology cla of
        Inl e \<Rightarrow> False
      | Inr subs \<Rightarrow> set subs \<inter> set check_classes = {})"


definition example_github :: "(string, string \<times> string) github" where
  "example_github = \<lparr> get_user = (\<lambda>owner. Inr owner),
                      get_repo = (\<lambda>u name. Inr (u, name)) \<rparr>"




definition example_bad_server :: "string \<Rightarrow> http_outcome" where
  "example_bad_server url =
     (if url = ''https://usegalaxy.eu/api/tools''
      then Returns (PList [PDict [(''id'', PStr ''abricate'')], PDict [(''name'', PStr ''x'')]])
      else RaisesConnectionError)"

text \<open>A two-class ontology: class 1 is the only subclass of class 0.\<close>

definition example_ontology :: "nat ontology" where
  "example_ontology =
     \<lparr> search_one = (\<lambda>t. if t = ''Sequence alignment'' then Some 0
                          else if t = ''Pairwise sequence alignment'' then Some 1
                          else None),
       subclasses = (\<lambda>c. if c = 0 then Inr [1] else Inr []),
       label = (\<lambda>c. if c = 0 then [''Sequence alignment'']
                     else [''Pairwise sequence alignment'']) \<rparr>"

definition example_suites :: py where
  "example_suites =
     PList [PDict [(''Suite ID'', PStr ''abricate''),
                   (''Galaxy tool ids'', PList [PStr ''abricate'', PStr ''abricate_list'']),
                   (''Deprecated'', PBool False)]]"

definition example_suites_with_set :: py where
  "example_suites_with_set =
     PList [PDict [(''Suite ID'', PStr ''abricate''),
                   (''EDAM operations'', PSet [PStr ''Antimicrobial resistance prediction''])]]"

definition example_status :: status_table where
  "example_status = [''abricate'' \<mapsto> \<lparr> keep = False, deprecated = False \<rparr>,
                     ''bakta'' \<mapsto> \<lparr> keep = True, deprecated = False \<rparr>]"

definition example_suite_list :: "suite list" where
  "example_suite_list =
     [\<lparr> suite_id = ''abricate'', toolshed_categories = [''Sequence Analysis''] \<rparr>,
      \<lparr> suite_id = ''bakta'', toolshed_categories = [''Sequence Analysis''] \<rparr>,
      \<lparr> suite_id = ''bwa'', toolshed_categories = [''Next Gen Mappers''] \<rparr>,
      \<lparr> suite_id = ''prokka'', toolshed_categories = [''Text Manipulation'', ''Sequence Analysis''] \<rparr>]"



section \<open>Properties of the string operations\<close>

lemma split_on_not_Nil: "split_on sep s \<noteq> []"
  by (induction s) (auto split: list.splits)

lemma join_Cons: "ws \<noteq> [] \<Longrightarrow> join sep (w # ws) = w @ sep @ join sep ws"
  by (cases ws) simp_all

lemma join_split_on: "join [sep] (split_on sep s) = s"
proof (induction s)
  case Nil
  show ?case by simp
next
  case (Cons c cs)
  obtain w ws where r: "split_on sep cs = w # ws"
    using split_on_not_Nil [of sep cs] by (cases "split_on sep cs") auto
  show ?case
  proof (cases "c = sep")
    case True
    with Cons r show ?thesis by simp
  next
    case False
    with Cons r show ?thesis by (cases ws) auto
  qed
qed

lemma split_on_sep_free: "w \<in> set (split_on sep s) \<Longrightarrow> sep \<notin> set w"
proof (induction s arbitrary: w)
  case Nil
  then show ?case by simp
next
  case (Cons c cs)
  then show ?case
    by (cases "split_on sep cs") (auto split: if_splits)
qed

lemma length_split_on: "length (split_on sep s) = Suc (count_list s sep)"
proof (induction s)
  case Nil
  show ?case by simp
next
  case (Cons c cs)
  then show ?case
    by (cases "split_on sep cs") auto
qed


lemma startswith_iff: "startswith s p \<longleftrightarrow> (\<exists>r. s = p @ r)"
  by (induction s p rule: startswith.induct) auto

lemma endswith_iff: "endswith s p \<longleftrightarrow> (\<exists>a. s = a @ p)"
proof
  assume "endswith s p"
  then obtain r where "rev s = rev p @ r"
    by (auto simp: endswith_def startswith_iff)
  then have "rev (rev s) = rev (rev p @ r)" by simp
  then have "s = rev r @ p" by simp
  then show "\<exists>a. s = a @ p" ..
next
  assume "\<exists>a. s = a @ p"
  then obtain a where "s = a @ p" ..
  then have "rev s = rev p @ rev a" by simp
  then show "endswith s p" by (auto simp: endswith_def startswith_iff)
qed

lemma contains_iff: "contains s p \<longleftrightarrow> (\<exists>a b. s = a @ p @ b)"
proof (induction s)
  case Nil
  show ?case by auto
next
  case (Cons c cs)
  show ?case
  proof
    assume "contains (c # cs) p"
    then consider "startswith (c # cs) p" | "contains cs p" by auto
    then show "\<exists>a b. c # cs = a @ p @ b"
    proof cases
      case 1
      then obtain r where "c # cs = p @ r" by (auto simp: startswith_iff)
      then have "c # cs = [] @ p @ r" by simp
      then show ?thesis by blast
    next
      case 2
      with Cons obtain a b where "cs = a @ p @ b" by auto
      then have "c # cs = (c # a) @ p @ b" by simp
      then show ?thesis by blast
    qed
  next
    assume "\<exists>a b. c # cs = a @ p @ b"
    then obtain a b where ab: "c # cs = a @ p @ b" by blast
    show "contains (c # cs) p"
    proof (cases a)
      case Nil
      with ab have "startswith (c # cs) p" by (auto simp: startswith_iff)
      then show ?thesis by simp
    next
      case (Cons x a')
      with ab have "cs = a' @ p @ b" by simp
      with Cons.IH have "contains cs p" by blast
      then show ?thesis by simp
    qed
  qed
qed

lemma drop_last_append: "drop_last (length p) (a @ p) = a"
  by (simp add: drop_last_def)

lemma py_index_last2:
  "py_index (pre @ [a, b]) (- 2) = Inr a" "py_index (pre @ [a, b]) (- 1) = Inr b"
proof -
  have n: "int (length (pre @ [a, b])) = int (length pre) + 2" by simp
  have "nat (int (length pre)) = length pre" by simp
  then show "py_index (pre @ [a, b]) (- 2) = Inr a"
    unfolding py_index_def Let_def n by (simp add: nth_append)
  have "nat (1 + int (length pre)) = Suc (length pre)" by simp
  then show "py_index (pre @ [a, b]) (- 1) = Inr b"
    unfolding py_index_def Let_def n by (simp add: nth_append)
qed

lemma two_last_decomp: "2 \<le> length xs \<Longrightarrow> \<exists>pre a b. xs = pre @ [a, b]"
proof -
  assume l: "2 \<le> length xs"
  then have "xs \<noteq> []" by auto
  then have 1: "xs = butlast xs @ [last xs]" by simp
  from l have "butlast xs \<noteq> []" by (cases xs) (auto split: if_splits)
  then have 2: "butlast xs = butlast (butlast xs) @ [last (butlast xs)]" by simp
  have "xs = butlast (butlast xs) @ [last (butlast xs), last xs]"
    using 1 2 by (metis append.assoc append_Cons append_Nil)
  then show ?thesis by blast
qed

lemma split_on_two: "sep \<in> set s \<Longrightarrow> 2 \<le> length (split_on sep s)"
proof -
  assume "sep \<in> set s"
  then have "count_list s sep \<noteq> 0" by (simp add: count_list_0_iff)
  then show ?thesis by (simp add: length_split_on)
qed

lemma split_on_last2:
  "sep \<in> set s \<Longrightarrow> \<exists>pre a b. split_on sep s = pre @ [a, b]"
  by (rule two_last_decomp [OF split_on_two])

section \<open>\<open>shorten_tool_id\<close>\<close>

text \<open>
  Claim C9.  A tool id that does not contain \<open>toolshed\<close> is returned unchanged.  A tool
  id that contains \<open>toolshed\<close> and at least one \<open>/\<close> gives the second-to-last of its
  \<open>/\<close>-separated segments.
\<close>

theorem shorten_tool_id_spec:
  "(\<not> contains tool ''toolshed'' \<longrightarrow> shorten_tool_id tool = Inr tool) \<and>
   (contains tool ''toolshed'' \<and> CHR ''/'' \<in> set tool \<longrightarrow>
      (\<exists>pre seg lst. split_on CHR ''/'' tool = pre @ [seg, lst] \<and>
                     shorten_tool_id tool = Inr seg))"
proof (intro conjI impI)
  assume "\<not> contains tool ''toolshed''"
  then show "shorten_tool_id tool = Inr tool" by (simp add: shorten_tool_id_def)
next
  assume h: "contains tool ''toolshed'' \<and> CHR ''/'' \<in> set tool"
  then obtain pre seg lst where d: "split_on CHR ''/'' tool = pre @ [seg, lst]"
    using split_on_last2 by blast
  with h have "shorten_tool_id tool = Inr seg"
    by (simp add: shorten_tool_id_def py_index_last2 del: contains.simps)
  with d show "\<exists>pre seg lst. split_on CHR ''/'' tool = pre @ [seg, lst] \<and>
                     shorten_tool_id tool = Inr seg" by blast
qed

theorem shorten_tool_id_spec_witness:
  "shorten_tool_id ''upload1'' = Inr ''upload1'' \<and>
   shorten_tool_id ''toolshed.g2.bx.psu.edu/repos/iuc/abricate/abricate/1.0.1''
     = Inr ''abricate''"
proof -
  let ?t = "''toolshed.g2.bx.psu.edu/repos/iuc/abricate/abricate/1.0.1''"
  have a: "\<not> contains ''upload1'' ''toolshed''" by simp
  have b: "contains ?t ''toolshed'' \<and> CHR ''/'' \<in> set ?t" by simp
  have s: "split_on CHR ''/'' ?t =
      [''toolshed.g2.bx.psu.edu'', ''repos'', ''iuc'', ''abricate''] @ [''abricate'', ''1.0.1'']"
    by simp
  from shorten_tool_id_spec [of "''upload1''"] a
  have 1: "shorten_tool_id ''upload1'' = Inr ''upload1''" by blast
  from shorten_tool_id_spec [of ?t] b obtain pre seg lst where
    p: "split_on CHR ''/'' ?t = pre @ [seg, lst]" and r: "shorten_tool_id ?t = Inr seg" by blast
  from p s have "seg = ''abricate''" by simp
  with 1 r show ?thesis by simp
qed


section \<open>\<open>get_github_repo\<close>\<close>

lemma strip_trailing_slash_append: "strip_trailing_slash (u @ ''/'') = u"
proof -
  have "endswith (u @ ''/'') ''/''" unfolding endswith_iff by blast
  moreover have "drop_last 1 (u @ ''/'') = u" by (simp add: drop_last_def)
  ultimately show ?thesis by (simp add: strip_trailing_slash_def)
qed

lemma strip_dot_git_append: "strip_dot_git (u @ ''.git'') = u"
proof -
  have "endswith (u @ ''.git'') ''.git''" unfolding endswith_iff by blast
  moreover have "drop_last 4 (u @ ''.git'') = u" by (simp add: drop_last_def)
  ultimately show ?thesis by (simp add: strip_dot_git_def)
qed

lemma strip_is_take:
  "\<exists>n. strip_dot_git (strip_trailing_slash url) = take n url \<and> length url \<le> n + 5"
proof -
  obtain n1 where 1: "strip_trailing_slash url = take n1 url" "length url \<le> n1 + 1"
  proof (cases "endswith url ''/''")
    case True
    then have "strip_trailing_slash url = take (length url - 1) url"
      by (simp add: strip_trailing_slash_def drop_last_def)
    then show ?thesis using that [of "length url - 1"] by simp
  next
    case False
    then have "strip_trailing_slash url = take (length url) url"
      by (simp add: strip_trailing_slash_def)
    then show ?thesis using that [of "length url"] by simp
  qed
  let ?u = "strip_trailing_slash url"
  have len: "length ?u = min (length url) n1" using 1 by simp
  show ?thesis
  proof (cases "endswith ?u ''.git''")
    case True
    then have "strip_dot_git ?u = take (length ?u - 4) ?u"
      by (simp add: strip_dot_git_def drop_last_def)
    also have "\<dots> = take (length ?u - 4) (take n1 url)" using 1 by simp
    also have "\<dots> = take (min (length ?u - 4) n1) url" by (simp add: take_take)
    finally have "strip_dot_git ?u = take (min (length ?u - 4) n1) url" .
    moreover have "length url \<le> min (length ?u - 4) n1 + 5" using len 1(2) by auto
    ultimately show ?thesis by blast
  next
    case False
    then have "strip_dot_git ?u = take n1 url" using 1 by (simp add: strip_dot_git_def)
    moreover have "length url \<le> n1 + 5" using 1(2) by simp
    ultimately show ?thesis by blast
  qed
qed

lemma github_url_has_slash:
  assumes "startswith url ''https://github.com/''"
  shows "CHR ''/'' \<in> set (strip_dot_git (strip_trailing_slash url))"
proof -
  from assms obtain r where u: "url = ''https://github.com/'' @ r"
    by (auto simp: startswith_iff)
  obtain n where n: "strip_dot_git (strip_trailing_slash url) = take n url"
      "length url \<le> n + 5"
    using strip_is_take by blast
  from u have "19 \<le> length url" by simp
  with n(2) have n7: "7 \<le> n" by simp
  have "take 7 (take n url) = take 7 url" using n7 by (simp add: take_take min_def)
  also have "\<dots> = ''https:/''" using u by simp
  finally have "take 7 (take n url) = ''https:/''" .
  then have "CHR ''/'' \<in> set (take 7 (take n url))" by simp
  then have "CHR ''/'' \<in> set (take n url)" by (rule in_set_takeD)
  with n(1) show ?thesis by simp
qed

text \<open>
  Claim C10.  A URL that does not start with \<open>https://github.com/\<close> raises
  \<open>ValueError\<close>.  Otherwise one trailing \<open>/\<close> is stripped, then a trailing \<open>.git\<close>,
  and the last two \<open>/\<close>-separated segments of what remains are the owner and the
  repository name handed to the GitHub client.
\<close>

theorem get_github_repo_spec:
  "(\<not> startswith url ''https://github.com/'' \<longrightarrow> get_github_repo url g = Inl ValueError) \<and>
   (startswith url ''https://github.com/'' \<longrightarrow>
      (\<exists>pre owner name.
         split_on CHR ''/'' (strip_dot_git (strip_trailing_slash url)) = pre @ [owner, name] \<and>
         get_github_repo url g =
           (case get_user g owner of Inl e \<Rightarrow> Inl e | Inr u \<Rightarrow> get_repo g u name))) \<and>
   strip_trailing_slash (v @ ''/'') = v \<and>
   (\<not> endswith url ''/'' \<longrightarrow> strip_trailing_slash url = url) \<and>
   strip_dot_git (v @ ''.git'') = v \<and>
   (\<not> endswith url ''.git'' \<longrightarrow> strip_dot_git url = url)"
proof (intro conjI impI)
  assume "\<not> startswith url ''https://github.com/''"
  then show "get_github_repo url g = Inl ValueError" by (simp add: get_github_repo_def)
next
  assume sw: "startswith url ''https://github.com/''"
  let ?u = "strip_dot_git (strip_trailing_slash url)"
  from github_url_has_slash [OF sw] obtain pre owner name where
    d: "split_on CHR ''/'' ?u = pre @ [owner, name]"
    using split_on_last2 by blast
  have "get_github_repo url g =
      (case get_user g owner of Inl e \<Rightarrow> Inl e | Inr u \<Rightarrow> get_repo g u name)"
    using sw d by (simp add: get_github_repo_def Let_def py_index_last2 del: startswith.simps)
  with d show "\<exists>pre owner name.
         split_on CHR ''/'' ?u = pre @ [owner, name] \<and>
         get_github_repo url g =
           (case get_user g owner of Inl e \<Rightarrow> Inl e | Inr u \<Rightarrow> get_repo g u name)"
    by blast
next
  show "strip_trailing_slash (v @ ''/'') = v" by (rule strip_trailing_slash_append)
next
  assume "\<not> endswith url ''/''"
  then show "strip_trailing_slash url = url" by (simp add: strip_trailing_slash_def)
next
  show "strip_dot_git (v @ ''.git'') = v" by (rule strip_dot_git_append)
next
  assume "\<not> endswith url ''.git''"
  then show "strip_dot_git url = url" by (simp add: strip_dot_git_def)
qed

theorem get_github_repo_spec_witness:
  "get_github_repo ''http://example.org/a/b'' example_github = Inl ValueError \<and>
   get_github_repo ''https://github.com/galaxyproject/tools-iuc.git/'' example_github
     = Inr (''galaxyproject'', ''tools-iuc'') \<and>
   strip_trailing_slash ''a/b'' = ''a/b'' \<and> strip_dot_git ''a/b'' = ''a/b''"
proof -
  let ?bad = "''http://example.org/a/b''"
  let ?url = "''https://github.com/galaxyproject/tools-iuc.git/''"
  have a: "\<not> startswith ?bad ''https://github.com/''" by simp
  have b: "startswith ?url ''https://github.com/''" by simp
  have s1: "strip_trailing_slash ?url = ''https://github.com/galaxyproject/tools-iuc.git''"
    by (simp add: strip_trailing_slash_def endswith_def drop_last_def)
  have s2: "strip_dot_git ''https://github.com/galaxyproject/tools-iuc.git''
      = ''https://github.com/galaxyproject/tools-iuc''"
    by (simp add: strip_dot_git_def endswith_def drop_last_def)
  have s: "split_on CHR ''/'' (strip_dot_git (strip_trailing_slash ?url))
      = [''https:'', '''', ''github.com''] @ [''galaxyproject'', ''tools-iuc'']"
    unfolding s1 s2 by simp
  have c: "\<not> endswith ''a/b'' ''/''" "\<not> endswith ''a/b'' ''.git''"
    by (simp_all add: endswith_def)
  from get_github_repo_spec [of ?bad example_github] a
  have 1: "get_github_repo ?bad example_github = Inl ValueError" by blast
  from get_github_repo_spec [of ?url example_github] b obtain pre owner name where
    p: "split_on CHR ''/'' (strip_dot_git (strip_trailing_slash ?url)) = pre @ [owner, name]"
    and r: "get_github_repo ?url example_github =
      (case get_user example_github owner of Inl e \<Rightarrow> Inl e
       | Inr u \<Rightarrow> get_repo example_github u name)" by blast
  from p s have "owner = ''galaxyproject'' \<and> name = ''tools-iuc''" by simp
  with r have 2: "get_github_repo ?url example_github = Inr (''galaxyproject'', ''tools-iuc'')"
    by (simp add: example_github_def)
  from get_github_repo_spec [of "''a/b''" example_github] c
  have 3: "strip_trailing_slash ''a/b'' = ''a/b'' \<and> strip_dot_git ''a/b'' = ''a/b''" by blast
  from 1 2 3 show ?thesis by blast
qed


section \<open>\<open>format_list_column\<close>\<close>

lemma list_of_length_3: "length xs = 3 \<Longrightarrow> xs = [xs ! 0, xs ! 1, xs ! 2]"
proof -
  assume l: "length xs = 3"
  then obtain a ys where 1: "xs = a # ys" by (cases xs) auto
  with l obtain b zs where 2: "ys = b # zs" by (cases ys) auto
  with l 1 obtain c ws where 3: "zs = c # ws" by (cases zs) auto
  with l 1 2 have "ws = []" by simp
  with 1 2 3 show ?thesis by simp
qed

text \<open>
  Claim C7.  \<open>format_list_column\<close> works cell by cell: the result has one cell per row,
  and the cell of a row is the string of that row's elements, each converted with
  \<open>str\<close>, joined by a comma (followed by a space).
\<close>

theorem format_list_column_spec:
  "length (format_list_column py_str col) = length col \<and>
   (\<forall>i < length col.
      format_list_column py_str col ! i = join '', '' (map py_str (col ! i))) \<and>
   join '', '' [] = [] \<and>
   join '', '' [x] = x \<and>
   join '', '' (x # y # ys) = x @ '', '' @ join '', '' (y # ys)"
  by (simp add: format_list_column_def)

theorem format_list_column_spec_witness:
  "format_list_column id [[''Assembly'', ''Mapping''], [], [''Sequence Analysis'']]
     = [''Assembly, Mapping'', '''', ''Sequence Analysis'']"
proof -
  let ?col = "[[''Assembly'', ''Mapping''], [], [''Sequence Analysis'']]"
  let ?r = "format_list_column id ?col"
  from format_list_column_spec [of id ?col]
  have l: "length ?r = 3"
    and c: "\<forall>i < length ?col. ?r ! i = join '', '' (map id (?col ! i))"
    by simp_all
  from c have "?r ! 0 = join '', '' (map id (?col ! 0))" by simp
  then have 0: "?r ! 0 = ''Assembly, Mapping''" by simp
  from c have "?r ! 1 = join '', '' (map id (?col ! 1))" by simp
  then have 1: "?r ! 1 = ''''" by simp
  from c have "?r ! 2 = join '', '' (map id (?col ! 2))" by simp
  then have 2: "?r ! 2 = ''Sequence Analysis''" by simp
  have "?r = [?r ! 0, ?r ! 1, ?r ! 2]"
    using l by (rule list_of_length_3)
  with 0 1 2 show ?thesis by simp
qed

section \<open>\<open>read_file\<close>\<close>















section \<open>\<open>get_all_installed_tool_ids_on_server\<close>\<close>

lemma tool_ids_of_length: "tool_ids_of ds = Inr ids \<Longrightarrow> length ids = length ds"
proof (induction ds arbitrary: ids)
  case Nil
  then show ?case by simp
next
  case (Cons d ds)
  then show ?case by (auto split: sum.splits)
qed

text \<open>
  Claim C3.  Whatever the server URL, when the query for the installed tools fails the
  function returns the empty list instead of raising: the request raises (server
  unreachable, HTTP error status, body that is not JSON, or anything else), the body
  cannot be iterated, or one of its elements has no \<open>id\<close>.  No tool id is then a member
  of the result, so every tool counts as not installed on that server.
\<close>

theorem get_all_installed_tool_ids_on_server_failure:
  "(web (rstrip_slash galaxy_url @ ''/api'' @ ''/tools'') \<in>
       {RaisesConnectionError, RaisesRequestException, RaisesValueError, RaisesOther}
     \<or> (\<exists>body. web (rstrip_slash galaxy_url @ ''/api'' @ ''/tools'') = Returns body \<and>
           (\<exists>e. py_iter body = Inl e \<or>
                (\<exists>ds. py_iter body = Inr ds \<and> tool_ids_of ds = Inl e))))
   \<longrightarrow> get_all_installed_tool_ids_on_server web galaxy_url = [] \<and>
       (\<forall>tool_id. tool_id \<notin> set (get_all_installed_tool_ids_on_server web galaxy_url))"
proof
  let ?u = "rstrip_slash galaxy_url @ ''/api'' @ ''/tools''"
  assume "web ?u \<in>
       {RaisesConnectionError, RaisesRequestException, RaisesValueError, RaisesOther}
     \<or> (\<exists>body. web ?u = Returns body \<and>
           (\<exists>e. py_iter body = Inl e \<or>
                (\<exists>ds. py_iter body = Inr ds \<and> tool_ids_of ds = Inl e)))"
  then have "get_all_installed_tool_ids_on_server web galaxy_url = []"
    by (auto simp: get_all_installed_tool_ids_on_server_def Let_def)
  then show "get_all_installed_tool_ids_on_server web galaxy_url = [] \<and>
       (\<forall>tool_id. tool_id \<notin> set (get_all_installed_tool_ids_on_server web galaxy_url))"
    by simp
qed

theorem get_all_installed_tool_ids_on_server_failure_witness:
  "get_all_installed_tool_ids_on_server (\<lambda>url. RaisesConnectionError) ''https://usegalaxy.eu/'' = [] \<and>
   get_all_installed_tool_ids_on_server example_bad_server ''https://usegalaxy.eu/'' = [] \<and>
   PStr ''abricate'' \<notin> set (get_all_installed_tool_ids_on_server example_bad_server ''https://usegalaxy.eu/'')"
proof -
  let ?g = "''https://usegalaxy.eu/''"
  have u: "rstrip_slash ?g @ ''/api'' @ ''/tools'' = ''https://usegalaxy.eu/api/tools''"
    by (simp add: rstrip_slash_def)
  have a: "(\<lambda>url. RaisesConnectionError) (rstrip_slash ?g @ ''/api'' @ ''/tools'') \<in>
       {RaisesConnectionError, RaisesRequestException, RaisesValueError, RaisesOther}"
    by simp
  have b: "example_bad_server (rstrip_slash ?g @ ''/api'' @ ''/tools'')
      = Returns (PList [PDict [(''id'', PStr ''abricate'')], PDict [(''name'', PStr ''x'')]])"
    unfolding u by (simp add: example_bad_server_def)
  have c: "py_iter (PList [PDict [(''id'', PStr ''abricate'')], PDict [(''name'', PStr ''x'')]])
      = Inr [PDict [(''id'', PStr ''abricate'')], PDict [(''name'', PStr ''x'')]]"
    by (simp add: py_iter_def)
  have d: "tool_ids_of [PDict [(''id'', PStr ''abricate'')], PDict [(''name'', PStr ''x'')]]
      = Inl KeyError"
    by (simp add: py_getitem_def)
  from get_all_installed_tool_ids_on_server_failure [of "\<lambda>url. RaisesConnectionError" ?g] a
  have 1: "get_all_installed_tool_ids_on_server (\<lambda>url. RaisesConnectionError) ?g = []"
    by blast
  from get_all_installed_tool_ids_on_server_failure [of example_bad_server ?g] b c d
  have 2: "get_all_installed_tool_ids_on_server example_bad_server ?g = [] \<and>
       (\<forall>tool_id. tool_id \<notin> set (get_all_installed_tool_ids_on_server example_bad_server ?g))"
    by blast
  from 1 2 show ?thesis by blast
qed


section \<open>\<open>get_request_json\<close>\<close>

lemma replicate_2: "replicate 2 x = [x, x]"
  by (simp add: numeral_2_eq_2)

lemma get_request_json_unfold:
  "get_request_json web =
     (case web 0 of
        Returns j \<Rightarrow> (Inr j, 1, [])
      | RaisesConnectionError \<Rightarrow>
          (case web 1 of
             Returns j \<Rightarrow> (Inr j, 2, [2])
           | RaisesConnectionError \<Rightarrow>
               (case web 2 of
                  Returns j \<Rightarrow> (Inr j, 3, [2, 2])
                | RaisesConnectionError \<Rightarrow> (Inl ConnectionError, 3, [2, 2])
                | RaisesRequestException \<Rightarrow> (Inl SystemExit, 3, [2, 2])
                | RaisesValueError \<Rightarrow> (Inl ValueError, 3, [2, 2])
                | RaisesOther \<Rightarrow> (Inl OtherException, 3, [2, 2]))
           | RaisesRequestException \<Rightarrow> (Inl SystemExit, 2, [2])
           | RaisesValueError \<Rightarrow> (Inl ValueError, 2, [2])
           | RaisesOther \<Rightarrow> (Inl OtherException, 2, [2]))
      | RaisesRequestException \<Rightarrow> (Inl SystemExit, 1, [])
      | RaisesValueError \<Rightarrow> (Inl ValueError, 1, [])
      | RaisesOther \<Rightarrow> (Inl OtherException, 1, []))"
proof -
  have s3: "get_request_json_loop web 3 2 2 2 [2, 2] =
      (case web 2 of
         Returns j \<Rightarrow> (Inr j, 3, [2, 2])
       | RaisesConnectionError \<Rightarrow> (Inl ConnectionError, 3, [2, 2])
       | RaisesRequestException \<Rightarrow> (Inl SystemExit, 3, [2, 2])
       | RaisesValueError \<Rightarrow> (Inl ValueError, 3, [2, 2])
       | RaisesOther \<Rightarrow> (Inl OtherException, 3, [2, 2]))"
    by (subst get_request_json_loop.simps) (simp add: numeral_3_eq_3 split: http_outcome.splits)
  have s2: "get_request_json_loop web 3 2 1 1 [2] =
      (case web 1 of
         Returns j \<Rightarrow> (Inr j, 2, [2])
       | RaisesConnectionError \<Rightarrow> get_request_json_loop web 3 2 2 2 [2, 2]
       | RaisesRequestException \<Rightarrow> (Inl SystemExit, 2, [2])
       | RaisesValueError \<Rightarrow> (Inl ValueError, 2, [2])
       | RaisesOther \<Rightarrow> (Inl OtherException, 2, [2]))"
    by (subst get_request_json_loop.simps) (simp add: numeral_2_eq_2 split: http_outcome.splits)
  have s1: "get_request_json_loop web 3 2 0 0 [] =
      (case web 0 of
         Returns j \<Rightarrow> (Inr j, 1, [])
       | RaisesConnectionError \<Rightarrow> get_request_json_loop web 3 2 1 1 [2]
       | RaisesRequestException \<Rightarrow> (Inl SystemExit, 1, [])
       | RaisesValueError \<Rightarrow> (Inl ValueError, 1, [])
       | RaisesOther \<Rightarrow> (Inl OtherException, 1, []))"
    by (subst get_request_json_loop.simps) (simp split: http_outcome.splits)
  show ?thesis
    unfolding get_request_json_def get_request_json_with_def s1 s2 s3 ..
qed

text \<open>
  Claim C2.  With the defaults (3 retries, delay 2.0) the function makes between one and
  three requests.  Every request but the last raised a connection error and was followed
  by one sleep of 2 seconds.  The last request decides the result: its JSON body is
  returned; a connection error is raised as \<open>ConnectionError\<close>, and only at the third
  request; any other request error ends the call at once with \<open>SystemExit\<close>.
\<close>

theorem get_request_json_spec:
  "(case get_request_json web of
      (res, n, slept) \<Rightarrow>
        1 \<le> n \<and> n \<le> 3 \<and>
        slept = replicate (n - 1) 2 \<and>
        (\<forall>i < n - 1. web i = RaisesConnectionError) \<and>
        (case web (n - 1) of
           Returns j \<Rightarrow> res = Inr j
         | RaisesConnectionError \<Rightarrow> n = 3 \<and> res = Inl ConnectionError
         | RaisesRequestException \<Rightarrow> res = Inl SystemExit
         | RaisesValueError \<Rightarrow> res = Inl ValueError
         | RaisesOther \<Rightarrow> res = Inl OtherException))"
proof (cases "web 0")
  case c0: RaisesConnectionError
  show ?thesis
  proof (cases "web 1")
    case c1: RaisesConnectionError
    have "\<forall>i < (2::nat). web i = RaisesConnectionError"
      using c0 c1 by (auto simp: less_Suc_eq numeral_2_eq_2)
    then show ?thesis
      unfolding get_request_json_unfold using c0 c1
      by (cases "web 2") (simp_all add: replicate_2)
  qed (simp_all add: get_request_json_unfold c0)
qed (simp_all add: get_request_json_unfold)

theorem get_request_json_spec_witness:
  "get_request_json (\<lambda>n. RaisesConnectionError) = (Inl ConnectionError, 3, [2, 2]) \<and>
   get_request_json (\<lambda>n. if n < 1 then RaisesConnectionError else RaisesRequestException)
     = (Inl SystemExit, 2, [2]) \<and>
   get_request_json (\<lambda>n. if n < 2 then RaisesConnectionError else Returns (PDict [(''name'', PStr ''abricate'')]))
     = (Inr (PDict [(''name'', PStr ''abricate'')]), 3, [2, 2])"
proof -
  let ?w1 = "\<lambda>n::nat. RaisesConnectionError"
  let ?w2 = "\<lambda>n::nat. if n < 1 then RaisesConnectionError else RaisesRequestException"
  let ?w3 = "\<lambda>n::nat. if n < 2 then RaisesConnectionError
                       else Returns (PDict [(''name'', PStr ''abricate'')])"
  obtain r1 n1 s1 where g1: "get_request_json ?w1 = (r1, n1, s1)" by (cases "get_request_json ?w1")
  obtain r2 n2 s2 where g2: "get_request_json ?w2 = (r2, n2, s2)" by (cases "get_request_json ?w2")
  obtain r3 n3 s3 where g3: "get_request_json ?w3 = (r3, n3, s3)" by (cases "get_request_json ?w3")
  from get_request_json_spec [of ?w1] g1
  have 1: "n1 = 3 \<and> r1 = Inl ConnectionError \<and> s1 = replicate (n1 - 1) 2" by simp
  then have 1: "r1 = Inl ConnectionError \<and> n1 = 3 \<and> s1 = [2, 2]"
    by (simp add: replicate_2)
  from get_request_json_spec [of ?w2] g2
  have a2: "1 \<le> n2" "n2 \<le> 3" "s2 = replicate (n2 - 1) 2"
    "\<forall>i < n2 - 1. ?w2 i = RaisesConnectionError"
    "(case ?w2 (n2 - 1) of
           Returns j \<Rightarrow> r2 = Inr j
         | RaisesConnectionError \<Rightarrow> n2 = 3 \<and> r2 = Inl ConnectionError
         | RaisesRequestException \<Rightarrow> r2 = Inl SystemExit
         | RaisesValueError \<Rightarrow> r2 = Inl ValueError
         | RaisesOther \<Rightarrow> r2 = Inl OtherException)"
    by simp_all
  from a2(1,2) consider "n2 = 1" | "n2 = 2" | "n2 = 3" by linarith
  then have 2: "r2 = Inl SystemExit \<and> n2 = 2 \<and> s2 = [2]"
  proof cases
    case 1 with a2(5) show ?thesis by simp
  next
    case 2 with a2(3,5) show ?thesis by simp
  next
    case 3
    then have "(1::nat) < n2 - 1" by simp
    with a2(4) have "?w2 1 = RaisesConnectionError" by blast
    then show ?thesis by simp
  qed
  from get_request_json_spec [of ?w3] g3
  have a3: "1 \<le> n3" "n3 \<le> 3" "s3 = replicate (n3 - 1) 2"
    "(case ?w3 (n3 - 1) of
           Returns j \<Rightarrow> r3 = Inr j
         | RaisesConnectionError \<Rightarrow> n3 = 3 \<and> r3 = Inl ConnectionError
         | RaisesRequestException \<Rightarrow> r3 = Inl SystemExit
         | RaisesValueError \<Rightarrow> r3 = Inl ValueError
         | RaisesOther \<Rightarrow> r3 = Inl OtherException)"
    by simp_all
  from a3(1,2) consider "n3 = 1" | "n3 = 2" | "n3 = 3" by linarith
  then have 3: "r3 = Inr (PDict [(''name'', PStr ''abricate'')]) \<and> n3 = 3 \<and> s3 = [2, 2]"
  proof cases
    case 1 with a3(4) show ?thesis by simp
  next
    case 2 with a3(4) show ?thesis by simp
  next
    case 3 with a3(3,4) show ?thesis by (simp add: replicate_2)
  qed
  from 1 2 3 g1 g2 g3 show ?thesis by simp
qed


section \<open>\<open>reduce_ontology_terms\<close>\<close>

lemma check_subclass_eq:
  "check_subclass subcla check_classes inc = (inc \<and> subcla \<notin> set check_classes)"
  by (induction check_classes arbitrary: inc) auto

lemma check_subclasses_eq:
  "check_subclasses subs check_classes inc = (inc \<and> set subs \<inter> set check_classes = {})"
  by (induction subs arbitrary: inc) (auto simp: check_subclass_eq)

lemma reduce_classes_eq:
  "reduce_classes ontology check_classes xs new =
     new @ filter (keeps_class ontology check_classes) xs"
  by (induction xs arbitrary: new)
    (auto simp: keeps_class_def check_subclasses_eq split: sum.splits)

lemma first_labels_eq:
  "\<forall>c \<in> set cs. label ontology c \<noteq> [] \<Longrightarrow>
   first_labels ontology cs = Inr (map (\<lambda>c. hd (label ontology c)) cs)"
proof (induction cs)
  case Nil
  show ?case by simp
next
  case (Cons c cs)
  then obtain l ls where "label ontology c = l # ls" by (cases "label ontology c") auto
  with Cons show ?case by (simp add: py_index_def)
qed

lemma found_classes_set:
  "set [cla. Some cla \<leftarrow> map f ts] = {c. \<exists>t \<in> set ts. f t = Some c}"
  by (induction ts) (auto split: option.splits)

lemma keeps_class_found:
  "keeps_class ontology [cla. Some cla \<leftarrow> map f ts] c =
     (case subclasses ontology c of
        Inl e \<Rightarrow> False
      | Inr subs \<Rightarrow> \<not> (\<exists>t2 \<in> set ts. \<exists>c2. f t2 = Some c2 \<and> c2 \<in> set subs))"
proof (cases "subclasses ontology c")
  case (Inl e)
  then show ?thesis by (simp add: keeps_class_def)
next
  case (Inr subs)
  have "(set subs \<inter> {c. \<exists>t \<in> set ts. f t = Some c} = {}) =
      (\<not> (\<exists>t2 \<in> set ts. \<exists>c2. f t2 = Some c2 \<and> c2 \<in> set subs))"
    by blast
  with Inr show ?thesis by (simp only: keeps_class_def found_classes_set sum.case)
qed

lemma labels_of_kept:
  assumes "\<forall>t \<in> set ts. \<forall>c. f t = Some c \<longrightarrow> lab c = t"
  shows "map lab (filter P [cla. Some cla \<leftarrow> map f ts]) =
         filter (\<lambda>t. case f t of None \<Rightarrow> False | Some c \<Rightarrow> P c) ts"
  using assms by (induction ts) (auto split: option.splits)

text \<open>
  Claim C1, as the code has it.  Take an ontology in which, for every term of the list
  that has a class, \<open>subclasses()\<close> of that class does not raise and the first label of
  the class is the term.  Then the result is the list of terms, in order, without the
  terms that have no class in the ontology and without the terms whose class has, among
  its subclasses, the class of a term of the list.  The empty list is returned
  unchanged.
\<close>

theorem reduce_ontology_terms_spec:
  assumes "\<forall>t \<in> set terms. \<forall>c. search_one ontology t = Some c \<longrightarrow>
             (\<exists>subs. subclasses ontology c = Inr subs) \<and>
             (\<exists>rest. label ontology c = t # rest)"
  shows "reduce_ontology_terms terms ontology =
     Inr (filter (\<lambda>t. case search_one ontology t of
                        None \<Rightarrow> False
                      | Some c \<Rightarrow>
                          (case subclasses ontology c of
                             Inl e \<Rightarrow> False
                           | Inr subs \<Rightarrow>
                               \<not> (\<exists>t2 \<in> set terms. \<exists>c2. search_one ontology t2 = Some c2 \<and>
                                                    c2 \<in> set subs))) terms)"
proof (cases "terms = []")
  case True
  then show ?thesis by (simp add: reduce_ontology_terms_def)
next
  case False
  let ?f = "search_one ontology"
  let ?cc = "[cla. Some cla \<leftarrow> map ?f terms]"
  let ?P = "keeps_class ontology ?cc"
  let ?lab = "\<lambda>c. hd (label ontology c)"
  have new: "reduce_classes ontology ?cc ?cc [] = filter ?P ?cc"
    by (simp add: reduce_classes_eq)
  have ne: "\<forall>c \<in> set (filter ?P ?cc). label ontology c \<noteq> []"
  proof
    fix c assume "c \<in> set (filter ?P ?cc)"
    then have "c \<in> set ?cc" by simp
    then obtain t where "t \<in> set terms" "?f t = Some c"
      unfolding found_classes_set by blast
    with assms obtain rest where "label ontology c = t # rest" by blast
    then show "label ontology c \<noteq> []" by simp
  qed
  have lab: "\<forall>t \<in> set terms. \<forall>c. ?f t = Some c \<longrightarrow> ?lab c = t"
  proof (intro ballI allI impI)
    fix t c assume "t \<in> set terms" "?f t = Some c"
    with assms obtain rest where "label ontology c = t # rest" by blast
    then show "?lab c = t" by simp
  qed
  have "reduce_ontology_terms terms ontology = first_labels ontology (filter ?P ?cc)"
    using False new by (simp add: reduce_ontology_terms_def Let_def)
  also have "\<dots> = Inr (map ?lab (filter ?P ?cc))"
    using ne by (rule first_labels_eq)
  also have "map ?lab (filter ?P ?cc) =
      filter (\<lambda>t. case ?f t of None \<Rightarrow> False | Some c \<Rightarrow> ?P c) terms"
    using lab by (rule labels_of_kept)
  also have "\<dots> = filter (\<lambda>t. case ?f t of
                        None \<Rightarrow> False
                      | Some c \<Rightarrow>
                          (case subclasses ontology c of
                             Inl e \<Rightarrow> False
                           | Inr subs \<Rightarrow>
                               \<not> (\<exists>t2 \<in> set terms. \<exists>c2. ?f t2 = Some c2 \<and>
                                                    c2 \<in> set subs))) terms"
    by (simp only: keeps_class_found)
  finally show ?thesis .
qed

theorem reduce_ontology_terms_spec_witness:
  "reduce_ontology_terms
     [''Sequence alignment'', ''Pairwise sequence alignment'', ''Unknown term'']
     example_ontology = Inr [''Pairwise sequence alignment'']"
proof -
  let ?ts = "[''Sequence alignment'', ''Pairwise sequence alignment'', ''Unknown term'']"
  have h: "\<forall>t \<in> set ?ts. \<forall>c. search_one example_ontology t = Some c \<longrightarrow>
             (\<exists>subs. subclasses example_ontology c = Inr subs) \<and>
             (\<exists>rest. label example_ontology c = t # rest)"
    by (simp add: example_ontology_def)
  show ?thesis
    unfolding reduce_ontology_terms_spec [OF h]
    by (simp add: example_ontology_def)
qed

text \<open>
  The rule as the specification words it keeps every term that has no subclass among
  the other terms.  The code also drops a term that the ontology does not know:
  \<open>Unknown term\<close> is dropped although no term of the list is a subclass of it.
\<close>

theorem reduce_ontology_terms_counterexample:
  "reduce_ontology_terms [''Pairwise sequence alignment'', ''Unknown term''] example_ontology
     = Inr [''Pairwise sequence alignment''] \<and>
   spec_reduce_ontology_terms [''Pairwise sequence alignment'', ''Unknown term''] example_ontology
     = [''Pairwise sequence alignment'', ''Unknown term''] \<and>
   \<not> spec_is_subclass_term example_ontology ''Pairwise sequence alignment'' ''Unknown term''"
  by (simp add: reduce_ontology_terms_def spec_reduce_ontology_terms_def
      spec_is_subclass_term_def example_ontology_def py_index_def)


section \<open>\<open>export_to_json\<close> and \<open>load_json\<close>\<close>

lemma dict_setitem_new:
  "k \<notin> fst ` set d \<Longrightarrow> dict_setitem d k v = d @ [(k, v)]"
  by (induction d) auto

lemma foldl_dict_setitem_distinct:
  "distinct (map fst (acc @ items)) \<Longrightarrow>
   foldl (\<lambda>d kv. dict_setitem d (fst kv) (snd kv)) acc items = acc @ items"
proof (induction items arbitrary: acc)
  case Nil
  show ?case by simp
next
  case (Cons kv items)
  then have new: "fst kv \<notin> fst ` set acc" by auto
  from Cons.prems have "distinct (map fst ((acc @ [kv]) @ items))" by simp
  from Cons.IH [OF this] show ?case
    by (simp add: dict_setitem_new [OF new])
qed

lemma dict_of_items_distinct:
  "distinct (map fst items) \<Longrightarrow> dict_of_items items = items"
  using foldl_dict_setitem_distinct [of "[]" items] by (simp add: dict_of_items_def)

lemma distinct_sorted_keys:
  "distinct (map fst items) \<Longrightarrow> distinct (map fst (sort_key fst items))"
  by (simp add: distinct_map)

lemma reload_is_sorted_by_key:
  "distinct_keys v \<Longrightarrow> json_native v \<Longrightarrow>
   json_decode (json_encode True v) = sorted_by_key v"
proof (induction v)
  case (PList xs)
  then show ?case by (simp add: list_all_iff)
next
  case (PSet xs)
  then show ?case by simp
next
  case (PDict items)
  let ?s = "sort_key fst items"
  have IH: "\<And>kv. kv \<in> set items \<Longrightarrow>
      json_decode (json_encode True (snd kv)) = sorted_by_key (snd kv)"
  proof -
    fix kv assume m: "kv \<in> set items"
    obtain k x where kv: "kv = (k, x)" by (cases kv)
    with m PDict.prems have "distinct_keys x" "json_native x"
      by (auto simp: list_all_iff)
    moreover from kv have "x \<in> Basic_BNFs.snds kv" by simp
    ultimately show "json_decode (json_encode True (snd kv)) = sorted_by_key (snd kv)"
      using PDict.IH [OF m] kv by simp
  qed
  let ?m = "map (\<lambda>kv. (fst kv, json_decode (snd kv)))
              (map (\<lambda>kv. (fst kv, json_encode True (snd kv))) ?s)"
  have keys: "map fst ?m = map fst ?s" by (simp add: comp_def)
  from PDict.prems have "distinct (map fst items)" by simp
  then have "distinct (map fst ?m)" unfolding keys by (rule distinct_sorted_keys)
  then have "dict_of_items ?m = ?m" by (rule dict_of_items_distinct)
  moreover have "?m = map (\<lambda>kv. (fst kv, sorted_by_key (snd kv))) ?s"
    using IH by (simp add: comp_def)
  ultimately show ?case by simp
qed simp_all

lemma sorted_by_key_idem: "sorted_by_key (sorted_by_key v) = sorted_by_key v"
proof (induction v)
  case (PDict items)
  let ?f = "\<lambda>kv. (fst kv, sorted_by_key (snd kv))"
  let ?s = "sort_key fst items"
  have IH: "\<And>kv. kv \<in> set items \<Longrightarrow>
      sorted_by_key (sorted_by_key (snd kv)) = sorted_by_key (snd kv)"
  proof -
    fix kv assume m: "kv \<in> set items"
    obtain k x where kv: "kv = (k, x)" by (cases kv)
    then have "x \<in> Basic_BNFs.snds kv" by simp
    with PDict.IH [OF m] kv show
      "sorted_by_key (sorted_by_key (snd kv)) = sorted_by_key (snd kv)" by simp
  qed
  have e: "map fst (map ?f ?s) = map fst ?s" by (simp add: comp_def)
  have "sorted (map fst (map ?f ?s))" unfolding e by (rule sorted_sort_key)
  then have "sort_key fst (map ?f ?s) = map ?f ?s" by (rule sort_key_id_if_sorted)
  moreover have "map ?f (map ?f ?s) = map ?f ?s" using IH by (simp add: comp_def)
  ultimately show ?case by simp
qed simp_all

text \<open>
  Claim C5, as the code has it.  For every suite collection that holds no set (its values
  are \<open>None\<close>, booleans, integers, strings, lists and dicts of these, with distinct string
  keys), exporting it with \<open>export_to_json\<close> and reloading the file with \<open>load_json\<close>
  yields a collection equal to the original up to the order of keys: the reloaded
  collection is the original with the items of every dict sorted by key.
\<close>

theorem export_load_roundtrip:
  "distinct_keys data \<and> json_native data \<longrightarrow>
     load_json (export_to_json files data output_fp True) output_fp
       = Inr (sorted_by_key data) \<and>
     equal_ignoring_key_order (sorted_by_key data) data"
  by (simp add: load_json_def export_to_json_def reload_is_sorted_by_key
      equal_ignoring_key_order_def sorted_by_key_idem)

theorem export_load_roundtrip_witness:
  "load_json (export_to_json Map.empty example_suites ''all.json'' True) ''all.json''
     = Inr (PList [PDict [(''Deprecated'', PBool False),
                          (''Galaxy tool ids'', PList [PStr ''abricate'', PStr ''abricate_list'']),
                          (''Suite ID'', PStr ''abricate'')]])"
proof -
  have h: "distinct_keys example_suites \<and> json_native example_suites"
    by (simp add: example_suites_def)
  have s: "sorted_by_key example_suites =
      PList [PDict [(''Deprecated'', PBool False),
                    (''Galaxy tool ids'', PList [PStr ''abricate'', PStr ''abricate_list'']),
                    (''Suite ID'', PStr ''abricate'')]]"
    unfolding example_suites_def by code_simp
  from export_load_roundtrip [of example_suites Map.empty "''all.json''"] h
  have "load_json (export_to_json Map.empty example_suites ''all.json'' True) ''all.json''
      = Inr (sorted_by_key example_suites)" by blast
  with s show ?thesis by simp
qed

text \<open>
  A collection that holds a set does not come back: \<open>default=list\<close> writes the set as a
  list, and the reloaded list is not equal to the set.
\<close>

theorem export_load_roundtrip_counterexample:
  "load_json (export_to_json Map.empty example_suites_with_set ''all.json'' True) ''all.json''
     = Inr (PList [PDict [(''EDAM operations'', PList [PStr ''Antimicrobial resistance prediction'']),
                          (''Suite ID'', PStr ''abricate'')]]) \<and>
   \<not> equal_ignoring_key_order
       (PList [PDict [(''EDAM operations'', PList [PStr ''Antimicrobial resistance prediction'']),
                      (''Suite ID'', PStr ''abricate'')]])
       example_suites_with_set"
  unfolding example_suites_with_set_def load_json_def export_to_json_def
    equal_ignoring_key_order_def
  by code_simp


section \<open>The filter stage\<close>

lemma filter_tools_eq:
  "filter_tools categories status suites =
     filter (\<lambda>s. category_in_allow_list categories s \<and> status_keeps status s) suites"
  by (induction suites) simp_all

text \<open>
  Claim C4.  A suite of the input of the filter stage is kept if and only if its ToolShed
  categories intersect the allow-list and either the status table has no entry for its
  id or that entry's keep flag is true.  In particular a suite whose categories match
  the allow-list but whose status entry says \<open>keep = False\<close> is excluded.
\<close>

theorem filter_tools_spec:
  "(s \<in> set (filter_tools categories status suites) \<longleftrightarrow>
      s \<in> set suites \<and>
      set (toolshed_categories s) \<inter> set categories \<noteq> {} \<and>
      (status (suite_id s) = None \<or> (\<exists>entry. status (suite_id s) = Some entry \<and> keep entry))) \<and>
   (s \<in> set suites \<and> set (toolshed_categories s) \<inter> set categories \<noteq> {} \<and>
    status (suite_id s) = Some entry \<and> \<not> keep entry
      \<longrightarrow> s \<notin> set (filter_tools categories status suites))"
proof -
  have c: "category_in_allow_list categories s \<longleftrightarrow>
      set (toolshed_categories s) \<inter> set categories \<noteq> {}"
    by (auto simp: category_in_allow_list_def list_ex_iff)
  have k: "status_keeps status s \<longleftrightarrow>
      (status (suite_id s) = None \<or> (\<exists>entry. status (suite_id s) = Some entry \<and> keep entry))"
    by (auto simp: status_keeps_def split: option.splits)
  show ?thesis unfolding filter_tools_eq using c k by auto
qed

theorem filter_tools_spec_witness:
  "\<lparr> suite_id = ''abricate'', toolshed_categories = [''Sequence Analysis''] \<rparr>
     \<notin> set (filter_tools [''Sequence Analysis'', ''Assembly''] example_status example_suite_list) \<and>
   \<lparr> suite_id = ''prokka'', toolshed_categories = [''Text Manipulation'', ''Sequence Analysis''] \<rparr>
     \<in> set (filter_tools [''Sequence Analysis'', ''Assembly''] example_status example_suite_list)"
proof -
  let ?a = "\<lparr> suite_id = ''abricate'', toolshed_categories = [''Sequence Analysis''] \<rparr>"
  let ?p = "\<lparr> suite_id = ''prokka'', toolshed_categories = [''Text Manipulation'', ''Sequence Analysis''] \<rparr>"
  let ?cats = "[''Sequence Analysis'', ''Assembly'']"
  have a: "?a \<in> set example_suite_list \<and>
      set (toolshed_categories ?a) \<inter> set ?cats \<noteq> {} \<and>
      example_status (suite_id ?a) = Some \<lparr> keep = False, deprecated = False \<rparr> \<and>
      \<not> keep \<lparr> keep = False, deprecated = False \<rparr>"
    by (simp add: example_suite_list_def example_status_def)
  have p: "?p \<in> set example_suite_list \<and>
      set (toolshed_categories ?p) \<inter> set ?cats \<noteq> {} \<and>
      (example_status (suite_id ?p) = None \<or>
       (\<exists>entry. example_status (suite_id ?p) = Some entry \<and> keep entry))"
    by (simp add: example_suite_list_def example_status_def)
  from filter_tools_spec [of ?a ?cats example_status example_suite_list
      "\<lparr> keep = False, deprecated = False \<rparr>"] a
  have 1: "?a \<notin> set (filter_tools ?cats example_status example_suite_list)" by blast
  from filter_tools_spec [of ?p ?cats example_status example_suite_list] p
  have 2: "?p \<in> set (filter_tools ?cats example_status example_suite_list)" by blast
  from 1 2 show ?thesis by blast
qed

section \<open>The curate stage\<close>

text \<open>
  Claim C6.  The curate stage should put every suite into exactly one of two outputs,
  by its bio.tools linkage.  The \<open>curate\<close> branch of the dispatch reads \<open>args.all\<close>
  first, an attribute that only the \<open>extract\<close> and \<open>filter\<close> sub-parsers define: for
  every command line of \<open>curate\<close> the branch raises \<open>AttributeError\<close> before any suite
  is read, curated or written.
\<close>

theorem curate_command_raises:
  "curate_command T w (curate_args filtered curated wo_biotools w_biotools status)
     = Inl AttributeError"
  by (simp add: curate_command_def curate_args_def getattr_def and_then_def)

text \<open>The \<open>filter\<close> branch reads the same attribute from a namespace that has it.\<close>

lemma filter_args_all:
  "getattr (filter_args all categories filtered tsv_filtered status) ''all'' = Inr (ArgStr all)"
  by (simp add: filter_args_def getattr_def)

lemma curate_args_filtered:
  "getattr (curate_args filtered curated wo_biotools w_biotools status) ''filtered''
     = Inr (ArgStr filtered)"
  by (simp add: curate_args_def getattr_def)


end
